theory Spec2Isabelle
  imports Complex_Main "HOL-Library.Word" "HOL-Library.Log_Nat"
begin

unbundle bit_operations_syntax

section \<open>Values of the platform\<close>

text \<open>
  A JavaScript string is a sequence of 16-bit code units; a \<open>Uint8Array\<close> is a list of
  bytes; an \<open>Int16Array\<close> is a list of 16-bit words, read as signed by \<open>sint\<close>.
  A JavaScript number is a double, modelled as the real it denotes. Every sample of
  the audio pipeline is a finite float, and the operations the pipeline applies to
  samples (multiplying by 32768, truncating, dividing a 16-bit integer by 32768) are
  exact on floats, so the real result is the float result. The arithmetic on times
  (the quotient of \<open>buffer.duration\<close> and the sum that advances the playback cursor) is
  not exact: each result is rounded to the nearest double by \<open>fl64\<close> below.
\<close>

type_synonym byte = "8 word"
type_synonym code_unit = "16 word"
type_synonym jsstring = "code_unit list"

text \<open>
  Rounding to the nearest double (IEEE 754 binary64, round to nearest, ties to even).
  \<open>round_half_even\<close> rounds a real to the nearest integer, a tie to the even one.
  \<open>binade x\<close> is the exponent \<open>e\<close> with \<open>2^e \<le> x < 2^(e+1)\<close> of a positive \<open>x\<close>, computed from the
  bit length of the integer part of \<open>x\<close> or of \<open>1 / x\<close>. \<open>fl64 x\<close> rounds \<open>x\<close> to a
  multiple of \<open>2^(e - 52)\<close>, a significand of 53 bits, where \<open>e\<close> is the binade of \<open>\<bar>x\<bar>\<close> and
  at least \<open>-1022\<close> (below it the doubles are subnormal, equally spaced). Overflow to
  infinity is not modelled: it needs a result of at least \<open>2^1024\<close>, which the times of
  this pipeline (the quotient of a buffer length by 24000, and the sum of a double and
  such a quotient) do not reach.
\<close>

definition round_half_even :: "real \<Rightarrow> int" where
  "round_half_even z =
     (let f = \<lfloor>z\<rfloor>; r = z - of_int f in
      if r < 1 / 2 then f else if 1 / 2 < r then f + 1 else if even f then f else f + 1)"

definition binade :: "real \<Rightarrow> int" where
  "binade x = (if 1 \<le> x then bitlen \<lfloor>x\<rfloor> - 1 else - bitlen (\<lceil>1 / x\<rceil> - 1))"

definition fl64 :: "real \<Rightarrow> real" where
  "fl64 x =
     (if x = 0 then 0
      else (let q = 2 powi (max (binade \<bar>x\<bar>) (- 1022) - 52) in
            of_int (round_half_even (x / q)) * q))"

text \<open>The exceptions a handler of the application can meet.\<close>

datatype error = InvalidCharacterError | RangeError | NotSupportedError | TypeError | ApiError

text \<open>A string literal of the source, as code units.\<close>

definition js :: "string \<Rightarrow> jsstring" where
  "js s = map (\<lambda>c. of_nat (of_char c)) s"

section \<open>The platform's base64 functions\<close>

text \<open>
  \<open>btoa\<close> and \<open>atob\<close> are functions of the browser, defined by the HTML standard
  through the forgiving-base64 encode and decode of the Infra standard (RFC 4648, section 4).
  \<open>b64char\<close> is the alphabet \<open>A-Z a-z 0-9 + /\<close> as code units, \<open>b64val\<close> its inverse,
  and 61 is the padding character \<open>=\<close>.
\<close>

definition b64char :: "nat \<Rightarrow> code_unit" where
  "b64char i = of_nat (if i < 26 then 65 + i else if i < 52 then 71 + i
                       else if i < 62 then i - 4 else if i = 62 then 43 else 47)"

definition b64val :: "code_unit \<Rightarrow> nat option" where
  "b64val c = (let n = unat c in
     if 65 \<le> n \<and> n \<le> 90 then Some (n - 65)
     else if 97 \<le> n \<and> n \<le> 122 then Some (n - 71)
     else if 48 \<le> n \<and> n \<le> 57 then Some (n + 4)
     else if n = 43 then Some 62
     else if n = 47 then Some 63
     else None)"

text \<open>Three bytes become four characters; a rest of one or two bytes is padded.\<close>

fun b64_encode :: "nat list \<Rightarrow> jsstring" where
  "b64_encode (a # b # c # r) =
     [b64char (a div 4), b64char ((a mod 4) * 16 + b div 16),
      b64char ((b mod 16) * 4 + c div 64), b64char (c mod 64)] @ b64_encode r"
| "b64_encode [a, b] =
     [b64char (a div 4), b64char ((a mod 4) * 16 + b div 16), b64char ((b mod 16) * 4), 61]"
| "b64_encode [a] = [b64char (a div 4), b64char ((a mod 4) * 16), 61, 61]"
| "b64_encode [] = []"

text \<open>
  The 6-bit groups \<open>b64_encode\<close> writes and the number of padding characters it adds,
  named for the proofs: \<open>b64_encode ns\<close> is the groups' characters followed by the padding.
\<close>

fun b64_sextets :: "nat list \<Rightarrow> nat list" where
  "b64_sextets (a # b # c # r) =
     [a div 4, (a mod 4) * 16 + b div 16, (b mod 16) * 4 + c div 64, c mod 64] @ b64_sextets r"
| "b64_sextets [a, b] = [a div 4, (a mod 4) * 16 + b div 16, (b mod 16) * 4]"
| "b64_sextets [a] = [a div 4, (a mod 4) * 16]"
| "b64_sextets [] = []"

fun b64_pad :: "nat list \<Rightarrow> nat" where
  "b64_pad (a # b # c # r) = b64_pad r"
| "b64_pad [a, b] = 1"
| "b64_pad [a] = 2"
| "b64_pad [] = 0"

text \<open>\<open>btoa\<close> throws on a code unit above 255.\<close>

definition btoa :: "jsstring \<Rightarrow> error + jsstring" where
  "btoa s = (if list_ex (\<lambda>c. 255 < unat c) s then Inl InvalidCharacterError
             else Inr (b64_encode (map unat s)))"

definition is_ascii_whitespace :: "code_unit \<Rightarrow> bool" where
  "is_ascii_whitespace c = (c = 9 \<or> c = 10 \<or> c = 12 \<or> c = 13 \<or> c = 32)"

text \<open>When the length is a multiple of four, one or two final \<open>=\<close> are removed.\<close>

definition strip_padding :: "jsstring \<Rightarrow> jsstring" where
  "strip_padding d =
     (if length d mod 4 = 0 then
        (if 2 \<le> length d \<and> last d = 61 \<and> last (butlast d) = 61 then butlast (butlast d)
         else if 1 \<le> length d \<and> last d = 61 then butlast d
         else d)
      else d)"

text \<open>
  Four 6-bit groups give three bytes; of a rest of three groups the last two bits are
  dropped, of a rest of two groups the last four.
\<close>

fun b64_decode_bits :: "nat list \<Rightarrow> nat list" where
  "b64_decode_bits (p # q # r # s # rest) =
     [p * 4 + q div 16, (q mod 16) * 16 + r div 4, (r mod 4) * 64 + s] @ b64_decode_bits rest"
| "b64_decode_bits [p, q, r] = [p * 4 + q div 16, (q mod 16) * 16 + r div 4]"
| "b64_decode_bits [p, q] = [p * 4 + q div 16]"
| "b64_decode_bits [p] = []"
| "b64_decode_bits [] = []"

text \<open>
  \<open>atob\<close> removes ASCII whitespace, strips the padding, and throws when the length
  leaves a remainder of one or a character is outside the alphabet.
\<close>

definition atob :: "jsstring \<Rightarrow> error + jsstring" where
  "atob data =
     (let d = strip_padding (filter (\<lambda>c. \<not> is_ascii_whitespace c) data) in
      if length d mod 4 = 1 then Inl InvalidCharacterError
      else (case those (map b64val d) of
              None \<Rightarrow> Inl InvalidCharacterError
            | Some v \<Rightarrow> Inr (map of_nat (b64_decode_bits v))))"

section \<open>The audio helpers of the service module\<close>

text \<open>
  \<open>decode\<close>: the loop \<open>for (i = 0; i < len; i++) bytes[i] = binaryString.charCodeAt(i)\<close>
  over a fresh \<open>Uint8Array(len)\<close>; storing into the array keeps the low eight bits.
\<close>

function decode_loop :: "jsstring \<Rightarrow> nat \<Rightarrow> nat \<Rightarrow> byte list \<Rightarrow> byte list" where
  "decode_loop binaryString i len bytes =
     (if i < len then decode_loop binaryString (i + 1) len (bytes[i := ucast (binaryString ! i)])
      else bytes)"
  by pat_completeness auto
termination
  by (relation "measure (\<lambda>(s, i, len, bytes). len - i)") auto

definition decode :: "jsstring \<Rightarrow> error + byte list" where
  "decode base64 =
     (case atob base64 of
        Inl e \<Rightarrow> Inl e
      | Inr binaryString \<Rightarrow>
          (let len = length binaryString in
           Inr (decode_loop binaryString 0 len (replicate len 0))))"

text \<open>
  \<open>encode\<close>: the loop \<open>binary += String.fromCharCode(bytes[i])\<close>, then \<open>btoa\<close>.
\<close>

function encode_loop :: "byte list \<Rightarrow> nat \<Rightarrow> nat \<Rightarrow> jsstring \<Rightarrow> jsstring" where
  "encode_loop bytes i len binary =
     (if i < len then encode_loop bytes (i + 1) len (binary @ [ucast (bytes ! i)])
      else binary)"
  by pat_completeness auto
termination
  by (relation "measure (\<lambda>(bytes, i, len, binary). len - i)") auto

definition encode :: "byte list \<Rightarrow> error + jsstring" where
  "encode bytes = btoa (encode_loop bytes 0 (length bytes) [])"

text \<open>
  An \<open>Int16Array\<close> and a \<open>Uint8Array\<close> over one buffer: each 16-bit element is two bytes,
  low byte first (the byte order of the platforms browsers run on). The view
  \<open>new Int16Array(buffer)\<close> throws a \<open>RangeError\<close> on a buffer of odd length.
\<close>

fun bytes_of_int16 :: "16 word list \<Rightarrow> byte list" where
  "bytes_of_int16 [] = []"
| "bytes_of_int16 (w # ws) = ucast w # ucast (drop_bit 8 w) # bytes_of_int16 ws"

fun int16_of_bytes :: "byte list \<Rightarrow> 16 word list" where
  "int16_of_bytes (lo # hi # bs) = (ucast lo OR push_bit 8 (ucast hi)) # int16_of_bytes bs"
| "int16_of_bytes bs = []"

definition Int16Array_of_buffer :: "byte list \<Rightarrow> error + 16 word list" where
  "Int16Array_of_buffer data =
     (if length data mod 2 \<noteq> 0 then Inl RangeError else Inr (int16_of_bytes data))"

text \<open>
  An \<open>AudioBuffer\<close>: its sample rate, its length in sample frames and one sample array
  per channel. \<open>createBuffer\<close> throws a \<open>NotSupportedError\<close> when an argument is zero or
  negative (Web Audio API); the new buffer is silent. The further limits of an
  implementation (the range of sample rates, the number of channels) are not modelled.
\<close>

record AudioBuffer =
  sampleRate :: real
  buf_length :: nat
  getChannelData :: "real list list"

text \<open>\<open>buffer.duration\<close>: the double nearest the quotient of length and sample rate.\<close>

definition duration :: "AudioBuffer \<Rightarrow> real" where
  "duration buffer = fl64 (real (buf_length buffer) / sampleRate buffer)"

definition createBuffer :: "nat \<Rightarrow> nat \<Rightarrow> real \<Rightarrow> error + AudioBuffer" where
  "createBuffer numChannels len rate =
     (if numChannels = 0 \<or> len = 0 \<or> rate \<le> 0 then Inl NotSupportedError
      else Inr \<lparr>sampleRate = rate, buf_length = len,
                getChannelData = replicate numChannels (replicate len 0)\<rparr>)"

text \<open>
  \<open>decodeAudioData\<close>. \<open>frameCount\<close> is the quotient as a number; \<open>createBuffer\<close>
  receives its integer part. The inner loop runs while \<open>i < frameCount\<close>; a write past
  the end of a typed array does nothing, as \<open>list_update\<close> past the end of a list.
\<close>

function sample_loop ::
  "16 word list \<Rightarrow> nat \<Rightarrow> nat \<Rightarrow> real \<Rightarrow> nat \<Rightarrow> real list \<Rightarrow> real list" where
  "sample_loop dataInt16 numChannels channel frameCount i channelData =
     (if real i < frameCount then
        sample_loop dataInt16 numChannels channel frameCount (i + 1)
          (channelData[i := real_of_int (sint (dataInt16 ! (i * numChannels + channel))) / 32768])
      else channelData)"
  by pat_completeness auto
termination
  by (relation "measure (\<lambda>(d, n, c, frameCount, i, cd). nat \<lceil>frameCount\<rceil> - i)")
     (auto simp: zless_nat_eq_int_zless less_ceiling_iff intro!: diff_less_mono2)

function channel_loop ::
  "16 word list \<Rightarrow> nat \<Rightarrow> real \<Rightarrow> nat \<Rightarrow> real list list \<Rightarrow> real list list" where
  "channel_loop dataInt16 numChannels frameCount channel chans =
     (if channel < numChannels then
        channel_loop dataInt16 numChannels frameCount (channel + 1)
          (chans[channel := sample_loop dataInt16 numChannels channel frameCount 0 (chans ! channel)])
      else chans)"
  by pat_completeness auto
termination
  by (relation "measure (\<lambda>(d, numChannels, f, channel, chans). numChannels - channel)") auto

definition decodeAudioData :: "byte list \<Rightarrow> real \<Rightarrow> nat \<Rightarrow> error + AudioBuffer" where
  "decodeAudioData data rate numChannels =
     (case Int16Array_of_buffer data of
        Inl e \<Rightarrow> Inl e
      | Inr dataInt16 \<Rightarrow>
          (let frameCount = real (length dataInt16) / real numChannels in
           case createBuffer numChannels (nat \<lfloor>frameCount\<rfloor>) rate of
             Inl e \<Rightarrow> Inl e
           | Inr buffer \<Rightarrow>
               Inr (buffer\<lparr>getChannelData :=
                      channel_loop dataInt16 numChannels frameCount 0 (getChannelData buffer)\<rparr>)))"

section \<open>The capture side: float samples to PCM16\<close>

text \<open>
  Storing a number into an \<open>Int16Array\<close> applies \<open>ToInt16\<close>: the number is truncated
  towards zero and taken modulo \<open>2 ^ 16\<close>.
\<close>

definition trunc_zero :: "real \<Rightarrow> int" where
  "trunc_zero x = (if 0 \<le> x then \<lfloor>x\<rfloor> else \<lceil>x\<rceil>)"

definition ToInt16 :: "real \<Rightarrow> 16 word" where
  "ToInt16 x = word_of_int (trunc_zero x)"

text \<open>The loop \<open>for (i = 0; i < l; i++) int16[i] = inputData[i] * 32768\<close>.\<close>

function int16_loop :: "real list \<Rightarrow> nat \<Rightarrow> nat \<Rightarrow> 16 word list \<Rightarrow> 16 word list" where
  "int16_loop inputData i l int16 =
     (if i < l then int16_loop inputData (i + 1) l (int16[i := ToInt16 (inputData ! i * 32768)])
      else int16)"
  by pat_completeness auto
termination
  by (relation "measure (\<lambda>(inputData, i, l, int16). l - i)") auto

text \<open>
  The frame of one capture callback, and its bytes \<open>new Uint8Array(int16.buffer)\<close>
  (the specification's \<open>samplesToPCM16\<close>).
\<close>

definition AudioFrame :: "real list \<Rightarrow> 16 word list" where
  "AudioFrame inputData =
     (let l = length inputData in int16_loop inputData 0 l (replicate l 0))"

definition samplesToPCM16 :: "real list \<Rightarrow> byte list" where
  "samplesToPCM16 inputData = bytes_of_int16 (AudioFrame inputData)"

section \<open>The strategic-insight request\<close>

text \<open>
  The value \<open>JSON.parse\<close> returns. \<open>analyzeEducationData\<close> casts it to \<open>AIInsight\<close>
  without a check, so its result is whatever value the text denotes.
\<close>

datatype json =
    JNull
  | JBool bool
  | JNumber real
  | JString jsstring
  | JArray "json list"
  | JObject "(jsstring \<times> json) list"

record SchoolReport =
  report_id :: jsstring
  schoolName :: jsstring
  district :: jsstring
  province :: jsstring
  issues :: jsstring
  timestamp :: real

text \<open>\<open>Array.prototype.join\<close>.\<close>

fun join :: "jsstring \<Rightarrow> jsstring list \<Rightarrow> jsstring" where
  "join sep [] = []"
| "join sep [x] = x"
| "join sep (x # y # ys) = x @ sep @ join sep (y # ys)"

definition reportsText :: "SchoolReport list \<Rightarrow> jsstring" where
  "reportsText reports =
     join (js [CHR 0x0A, CHR ''-'', CHR ''-'', CHR ''-'', CHR 0x0A])
       (map (\<lambda>r. js ''School: '' @ schoolName r @ js '', District: '' @ district r
                   @ js '', Issues: '' @ issues r) reports)"

definition prompt :: "SchoolReport list \<Rightarrow> jsstring" where
  "prompt reports =
     js ''Analyze the following school reports from Pakistan and provide a strategic summary.''
     @ js [CHR 0x0A] @ js ''  Reports:'' @ js [CHR 0x0A] @ js ''  '' @ reportsText reports
     @ js [CHR 0x0A] @ js ''  '' @ js [CHR 0x0A]
     @ js ''  Focus on identifying systemic patterns and critical infrastructure gaps.''"

text \<open>The value of the \<open>catch\<close> branch.\<close>

definition fallback :: json where
  "fallback = JObject
     [(js ''summary'', JString (js ''Strategic analysis unavailable at this moment.'')),
      (js ''priorities'', JArray [JString (js ''Manual review required'')]),
      (js ''suggestedResources'', JArray [JString (js ''General Support'')])]"

text \<open>
  \<open>analyzeEducationData\<close>. The two functions of the environment are parameters:
  \<open>generateContent\<close>, the remote call, gives for a prompt either the error it rejects
  with or the \<open>text\<close> of its response (\<open>None\<close> when the response has none), and
  \<open>JSON_parse\<close> gives the value a text denotes, \<open>None\<close> when \<open>JSON.parse\<close> throws a
  \<open>SyntaxError\<close>. The remote call is awaited outside the \<open>try\<close>: its rejection is the
  function's. \<open>response.text || '{}'\<close> replaces a missing or empty text.
\<close>

definition analyzeEducationData ::
  "(jsstring \<Rightarrow> json option) \<Rightarrow> (jsstring \<Rightarrow> error + jsstring option)
     \<Rightarrow> SchoolReport list \<Rightarrow> error + json" where
  "analyzeEducationData JSON_parse generateContent reports =
     (case generateContent (prompt reports) of
        Inl e \<Rightarrow> Inl e
      | Inr response_text \<Rightarrow>
          (case JSON_parse (case response_text of
                              None \<Rightarrow> js ''{}''
                            | Some t \<Rightarrow> if t = [] then js ''{}'' else t) of
             None \<Rightarrow> Inr fallback
           | Some v \<Rightarrow> Inr v))"

text \<open>
  What \<open>JSON.parse\<close> does on the text \<open>{}\<close>, which denotes the empty object. The
  function stands for \<open>JSON.parse\<close> only where no other JSON text is parsed.
\<close>

definition JSON_parse_braces :: "jsstring \<Rightarrow> json option" where
  "JSON_parse_braces t = (if t = js ''{}'' then Some (JObject []) else None)"

section \<open>The application\<close>

datatype role = User | AI | System

record transcript_entry =
  role :: role
  entry_text :: jsstring

text \<open>The payload of one \<open>sendRealtimeInput\<close>.\<close>

record media =
  data :: jsstring
  mimeType :: jsstring

text \<open>
  One call \<open>source.start(t)\<close>: the source node, the output context's \<open>currentTime\<close> at
  the call, the start time \<open>t\<close> and the node's buffer.
\<close>

record start_call =
  src :: nat
  deviceTime :: real
  startTime :: real
  buffer :: AudioBuffer

text \<open>A \<open>LiveServerMessage\<close>, as far as \<open>onmessage\<close> reads it; every field is optional.\<close>

record Blob =
  blob_data :: "jsstring option"

record Part =
  inlineData :: "Blob option"

record Content =
  parts :: "Part list option"

record Transcription =
  transcription_text :: "jsstring option"

record LiveServerContent =
  modelTurn :: "Content option"
  outputTranscription :: "Transcription option"
  inputTranscription :: "Transcription option"

record LiveServerMessage =
  serverContent :: "LiveServerContent option"

text \<open>
  The state of the \<open>App\<close> component (its \<open>useState\<close> values and its refs, as far as the
  voice channel and the insight request use them), and what the component has done to
  the world: the audio contexts it has allocated (a context is its index; the list
  holds the sample rates) and closed, the sessions it has asked \<open>ai.live.connect\<close> for
  (each with its input and output context), the script processors it has attached,
  the \<open>source.start\<close> calls, the payloads sent (with the session's index) and the
  alerts shown.
\<close>

record app =
  reports :: "SchoolReport list"
  insight :: "json option"
  isAnalyzing :: bool
  isLiveActive :: bool
  liveTranscript :: "transcript_entry list"
  audioContextRef :: "nat option"
  nextStartTimeRef :: real
  sourcesRef :: "nat set"
  inputCtxRef :: "nat option"
  contexts :: "real list"
  closed :: "nat list"
  sessions :: "(nat \<times> nat) list"
  processors :: "nat list"
  started :: "start_call list"
  sent :: "(nat \<times> media) list"
  alerts :: "string list"

text \<open>The component as mounted: the initial values of its state and refs.\<close>

definition init :: app where
  "init = \<lparr>reports = [], insight = None, isAnalyzing = False, isLiveActive = False,
            liveTranscript = [], audioContextRef = None, nextStartTimeRef = 0,
            sourcesRef = {}, inputCtxRef = None, contexts = [], closed = [], sessions = [],
            processors = [], started = [], sent = [], alerts = []\<rparr>"

text \<open>
  \<open>generateStrategicInsight\<close>: nothing without reports; a rejection of
  \<open>analyzeEducationData\<close> is caught and logged, and leaves the insight as it was.
\<close>

definition generateStrategicInsight ::
  "(jsstring \<Rightarrow> json option) \<Rightarrow> (jsstring \<Rightarrow> error + jsstring option) \<Rightarrow> app \<Rightarrow> app" where
  "generateStrategicInsight JSON_parse generateContent st =
     (if reports st = [] then st
      else (case analyzeEducationData JSON_parse generateContent (reports st) of
              Inl err \<Rightarrow> st\<lparr>isAnalyzing := False\<rparr>
            | Inr d \<Rightarrow> st\<lparr>insight := Some d, isAnalyzing := False\<rparr>))"

text \<open>
  \<open>toggleLiveReporting\<close>. With \<open>isLiveActive\<close> set it is the stop branch: the flag is
  cleared and the two contexts of the refs are closed. Otherwise it is the start: when
  the microphone is not acquired (\<open>acquired\<close> is the outcome of the calls before the
  allocations), the \<open>catch\<close> shows the alert; else two contexts are allocated, at 16000
  and 24000 Hz, stored in the refs, and a session is requested. Neither branch writes
  \<open>nextStartTimeRef\<close> or \<open>sourcesRef\<close>.
\<close>

definition toggleLiveReporting :: "app \<Rightarrow> bool \<Rightarrow> app" where
  "toggleLiveReporting st acquired =
     (if isLiveActive st then
        st\<lparr>isLiveActive := False,
           closed := closed st @ (case inputCtxRef st of None \<Rightarrow> [] | Some c \<Rightarrow> [c])
                              @ (case audioContextRef st of None \<Rightarrow> [] | Some c \<Rightarrow> [c])\<rparr>
      else if \<not> acquired then st\<lparr>alerts := alerts st @ [''Microphone access failed.'']\<rparr>
      else
        (let inCtx = length (contexts st); outCtx = length (contexts st) + 1 in
         st\<lparr>contexts := contexts st @ [16000, 24000],
            inputCtxRef := Some inCtx,
            audioContextRef := Some outCtx,
            sessions := sessions st @ [(inCtx, outCtx)]\<rparr>))"

text \<open>
  \<open>onopen\<close> of the session with index \<open>sid\<close>: the flag is set, the transcript is
  replaced, and a script processor is attached to the session's input context.
\<close>

definition onopen :: "app \<Rightarrow> nat \<Rightarrow> app" where
  "onopen st sid =
     st\<lparr>isLiveActive := True,
        liveTranscript :=
          [\<lparr>role = System,
            entry_text = js ''Assistant connected. Describe the school situation.''\<rparr>],
        processors := processors st @ [sid]\<rparr>"

text \<open>
  \<open>onaudioprocess\<close> of session \<open>sid\<close>: the callback's samples are converted, encoded and
  handed to the session in one \<open>sendRealtimeInput\<close>. The send waits for the session's
  promise; the callback exists only once \<open>onopen\<close> has attached the processor.
\<close>

definition onaudioprocess :: "app \<Rightarrow> nat \<Rightarrow> real list \<Rightarrow> error + app" where
  "onaudioprocess st sid inputData =
     (case encode (samplesToPCM16 inputData) of
        Inl e \<Rightarrow> Inl e
      | Inr d \<Rightarrow>
          Inr (st\<lparr>sent := sent st @ [(sid, \<lparr>data = d, mimeType = js ''audio/pcm;rate=16000''\<rparr>)]\<rparr>))"

text \<open>
  The playback scheduler, lines \<open>createBufferSource\<close> to \<open>onended\<close> of \<open>onmessage\<close>:
  \<open>now\<close> is \<open>outCtx.currentTime\<close>. The new source node is numbered by the calls so far.
  \<open>Math.max\<close> returns one of its arguments; \<open>nextStartTimeRef.current += buffer.duration\<close>
  is an addition of doubles, rounded to the nearest double.
\<close>

definition schedule :: "app \<Rightarrow> real \<Rightarrow> AudioBuffer \<Rightarrow> app" where
  "schedule st now buf =
     (let source = length (started st);
          t = max (nextStartTimeRef st) now in
      st\<lparr>nextStartTimeRef := fl64 (t + duration buf),
         started := started st @ [\<lparr>src = source, deviceTime = now, startTime = t, buffer = buf\<rparr>],
         sourcesRef := insert source (sourcesRef st)\<rparr>)"

text \<open>\<open>source.onended\<close>.\<close>

definition onended :: "app \<Rightarrow> nat \<Rightarrow> app" where
  "onended st source = st\<lparr>sourcesRef := sourcesRef st - {source}\<rparr>"

text \<open>
  \<open>message.serverContent?.modelTurn?.parts[0]?.inlineData?.data\<close>: a missing
  \<open>serverContent\<close> or \<open>modelTurn\<close> ends the chain with \<open>undefined\<close>; \<open>parts[0]\<close> has no
  \<open>?.\<close> before the index, so a \<open>modelTurn\<close> without \<open>parts\<close> throws a \<open>TypeError\<close>.
\<close>

definition audioData :: "LiveServerMessage \<Rightarrow> error + jsstring option" where
  "audioData message =
     (case serverContent message of
        None \<Rightarrow> Inr None
      | Some sc \<Rightarrow>
          (case modelTurn sc of
             None \<Rightarrow> Inr None
           | Some mt \<Rightarrow>
               (case parts mt of
                  None \<Rightarrow> Inl TypeError
                | Some [] \<Rightarrow> Inr None
                | Some (p # ps) \<Rightarrow>
                    (case inlineData p of
                       None \<Rightarrow> Inr None
                     | Some b \<Rightarrow> Inr (blob_data b)))))"

text \<open>
  The two transcription blocks of \<open>onmessage\<close>: an entry per transcription present, the
  model's first, with \<open>text || ''\<close> as its text.
\<close>

definition transcriptions :: "LiveServerMessage \<Rightarrow> transcript_entry list" where
  "transcriptions message =
     (case serverContent message of
        None \<Rightarrow> []
      | Some sc \<Rightarrow>
          (case outputTranscription sc of
             None \<Rightarrow> []
           | Some t \<Rightarrow> [\<lparr>role = AI,
                          entry_text = (case transcription_text t of None \<Rightarrow> [] | Some x \<Rightarrow> x)\<rparr>])
          @ (case inputTranscription sc of
               None \<Rightarrow> []
             | Some t \<Rightarrow> [\<lparr>role = User,
                            entry_text = (case transcription_text t of None \<Rightarrow> [] | Some x \<Rightarrow> x)\<rparr>]))"

text \<open>
  \<open>onmessage\<close>. An audio payload that is present and not the empty string is decoded,
  made a mono buffer at 24000 Hz and scheduled; an exception of these steps rejects the
  handler's promise before the transcription blocks are reached.
\<close>

definition onmessage :: "app \<Rightarrow> real \<Rightarrow> LiveServerMessage \<Rightarrow> error + app" where
  "onmessage st now message =
     (case audioData message of
        Inl e \<Rightarrow> Inl e
      | Inr a \<Rightarrow>
          (case (case a of
                   None \<Rightarrow> Inr st
                 | Some base64 \<Rightarrow>
                     if base64 = [] then Inr st
                     else (case decode base64 of
                             Inl e \<Rightarrow> Inl e
                           | Inr bytes \<Rightarrow>
                               (case decodeAudioData bytes 24000 1 of
                                  Inl e \<Rightarrow> Inl e
                                | Inr buf \<Rightarrow> Inr (schedule st now buf)))) of
             Inl e \<Rightarrow> Inl e
           | Inr st' \<Rightarrow>
               Inr (st'\<lparr>liveTranscript := liveTranscript st' @ transcriptions message\<rparr>)))"

text \<open>\<open>onclose\<close> and \<open>onerror\<close> clear the flag.\<close>

definition onclose :: "app \<Rightarrow> app" where
  "onclose st = st\<lparr>isLiveActive := False\<rparr>"

definition onerror :: "app \<Rightarrow> app" where
  "onerror st = st\<lparr>isLiveActive := False\<rparr>"

text \<open>
  The events of the component's voice channel, and a run of them. A handler that
  throws has changed nothing: each of its exceptions comes before its first write.
\<close>

datatype event =
    Toggle bool
  | Open nat
  | Message real LiveServerMessage
  | Close
  | Error
  | AudioProcess nat "real list"
  | Ended nat

fun step :: "app \<Rightarrow> event \<Rightarrow> app" where
  "step st (Toggle acquired) = toggleLiveReporting st acquired"
| "step st (Open sid) = onopen st sid"
| "step st (Message now message) =
     (case onmessage st now message of Inl e \<Rightarrow> st | Inr st' \<Rightarrow> st')"
| "step st Close = onclose st"
| "step st Error = onerror st"
| "step st (AudioProcess sid inputData) =
     (case onaudioprocess st sid inputData of Inl e \<Rightarrow> st | Inr st' \<Rightarrow> st')"
| "step st (Ended source) = onended st source"

fun run :: "app \<Rightarrow> event list \<Rightarrow> app" where
  "run st [] = st"
| "run st (e # es) = run (step st e) es"


text \<open>A message with one audio payload and nothing else, and one with transcriptions.\<close>

definition audio_message :: "jsstring \<Rightarrow> LiveServerMessage" where
  "audio_message base64 =
     \<lparr>serverContent = Some
        \<lparr>modelTurn = Some \<lparr>parts = Some [\<lparr>inlineData = Some \<lparr>blob_data = Some base64\<rparr>\<rparr>]\<rparr>,
         outputTranscription = None, inputTranscription = None\<rparr>\<rparr>"

text \<open>A remote call that answers every prompt with the same response text.\<close>

definition respond :: "jsstring option \<Rightarrow> jsstring \<Rightarrow> error + jsstring option" where
  "respond response_text p = Inr response_text"

text \<open>
  The invariant of the playback scheduler: each scheduled source starts no earlier
  than the rounded end of the one before it and no earlier than the device time of its
  call; the cursor \<open>nextStartTimeRef\<close> is no earlier than the rounded end of any scheduled
  source; and the cursor is a double that is not negative.
\<close>

definition scheduled_in_order :: "app \<Rightarrow> bool" where
  "scheduled_in_order st \<longleftrightarrow>
     (\<forall>n. Suc n < length (started st) \<longrightarrow>
        fl64 (startTime (started st ! n) + duration (buffer (started st ! n)))
          \<le> startTime (started st ! Suc n))
     \<and> (\<forall>c \<in> set (started st).
          deviceTime c \<le> startTime c
          \<and> fl64 (startTime c + duration (buffer c)) \<le> nextStartTimeRef st)
     \<and> 0 \<le> nextStartTimeRef st
     \<and> fl64 (nextStartTimeRef st) = nextStartTimeRef st"

section \<open>Proofs\<close>

text \<open>The loops are unfolded one iteration at a time, by hand.\<close>

declare decode_loop.simps [simp del] encode_loop.simps [simp del]
  sample_loop.simps [simp del] channel_loop.simps [simp del] int16_loop.simps [simp del]

subsection \<open>Rounding to the nearest double\<close>

text \<open>The model on known doubles: \<open>2 / 24000\<close> and \<open>0.5 + 2 / 24000\<close> as JavaScript computes them.\<close>

lemma fl64_examples:
  "fl64 (2 / 24000) = 6148914691236517 / 2 ^ 66"
  "fl64 (1 / 2 + fl64 (2 / 24000)) = 4504350227308391 / 2 ^ 53"
  "fl64 (1 / 2) = 1 / 2"
  "fl64 3 = 3"
  by code_simp+

lemma powi_nat: "0 \<le> e \<Longrightarrow> (2::real) powi e = 2 ^ nat e"
  by (simp add: power_int_def)

lemma powi_neg: "0 \<le> k \<Longrightarrow> (2::real) powi (- k) = 1 / 2 ^ nat k"
  by (simp add: power_int_def field_simps)

lemma binade_bounds:
  assumes "0 < x"
  shows "2 powi (binade x) \<le> x \<and> x < 2 powi (binade x + 1)"
proof (cases "1 \<le> x")
  case True
  let ?m = "\<lfloor>x\<rfloor>"
  have m: "0 < ?m" using True by simp
  from bitlen_bounds [OF m] have lo: "2 ^ nat (bitlen ?m - 1) \<le> ?m" and hi: "?m < 2 ^ nat (bitlen ?m)"
    by simp_all
  have b1: "1 \<le> bitlen ?m" using m by (simp add: bitlen_alt_def)
  have "of_int (2 ^ nat (bitlen ?m - 1)) \<le> x" using lo by (subst (asm) le_floor_iff)
  then have 1: "(2::real) ^ nat (bitlen ?m - 1) \<le> x" by simp
  have "x < of_int (2 ^ nat (bitlen ?m))" using hi by (subst (asm) floor_less_iff)
  then have 2: "x < (2::real) ^ nat (bitlen ?m)" by simp
  show ?thesis using True b1 1 2 by (simp add: binade_def powi_nat)
next
  case False
  with assms have x1: "x < 1" by simp
  let ?c = "\<lceil>1 / x\<rceil>"
  have "1 < 1 / x" using assms x1 by simp
  then have c: "0 < ?c - 1" by linarith
  let ?k = "bitlen (?c - 1)"
  from bitlen_bounds [OF c] have lo: "2 ^ nat (?k - 1) \<le> ?c - 1" and hi: "?c - 1 < 2 ^ nat ?k"
    by simp_all
  have k1: "1 \<le> ?k" using c by (simp add: bitlen_alt_def)
  have "?c \<le> 2 ^ nat ?k" using hi by simp
  then have "1 / x \<le> of_int (2 ^ nat ?k)" by (subst (asm) ceiling_le_iff)
  then have "1 / x \<le> 2 ^ nat ?k" by simp
  then have 1: "1 / 2 ^ nat ?k \<le> x" using assms by (simp add: field_simps)
  have "2 ^ nat (?k - 1) < ?c" using lo by simp
  then have "of_int (2 ^ nat (?k - 1)) < 1 / x" by (subst (asm) less_ceiling_iff)
  then have "2 ^ nat (?k - 1) < 1 / x" by simp
  then have 2: "x < 1 / 2 ^ nat (?k - 1)" using assms by (simp add: field_simps)
  have "(2::real) powi (- ?k) = 1 / 2 ^ nat ?k" using k1 by (intro powi_neg) simp
  moreover have "(2::real) powi (- (?k - 1)) = 1 / 2 ^ nat (?k - 1)"
    using k1 by (intro powi_neg) simp
  then have "(2::real) powi (- ?k + 1) = 1 / 2 ^ nat (?k - 1)" by (simp add: algebra_simps)
  moreover have "binade x = - ?k" using False by (simp add: binade_def)
  ultimately show ?thesis using 1 2 by simp
qed

lemma powi_less_imp: "(2::real) powi a < 2 powi b \<Longrightarrow> a < b"
proof (rule ccontr)
  assume "2 powi a < (2::real) powi b" and "\<not> a < b"
  then have "b \<le> a" by simp
  then have "(2::real) powi b \<le> 2 powi a" by (intro power_int_increasing) simp_all
  with \<open>2 powi a < (2::real) powi b\<close> show False by simp
qed

lemma binade_unique:
  assumes "0 < x" and "2 powi e \<le> x" and "x < 2 powi (e + 1)"
  shows "binade x = e"
proof -
  from binade_bounds [OF assms(1)] have b: "2 powi (binade x) \<le> x" "x < 2 powi (binade x + 1)"
    by simp_all
  have "2 powi e < (2::real) powi (binade x + 1)" using assms(2) b(2) by linarith
  then have 1: "e < binade x + 1" by (rule powi_less_imp)
  have "2 powi (binade x) < (2::real) powi (e + 1)" using assms(3) b(1) by linarith
  then have 2: "binade x < e + 1" by (rule powi_less_imp)
  from 1 2 show ?thesis by simp
qed

lemma round_half_even_int: "round_half_even (of_int n) = n"
  by (simp add: round_half_even_def)

lemma round_half_even_bounds: "\<lfloor>z\<rfloor> \<le> round_half_even z \<and> round_half_even z \<le> \<lfloor>z\<rfloor> + 1"
  by (simp add: round_half_even_def Let_def)

lemma round_half_even_mono: "x \<le> y \<Longrightarrow> round_half_even x \<le> round_half_even y"
proof -
  assume xy: "x \<le> y"
  then have fl: "\<lfloor>x\<rfloor> \<le> \<lfloor>y\<rfloor>" by (rule floor_mono)
  show ?thesis
  proof (cases "\<lfloor>x\<rfloor> = \<lfloor>y\<rfloor>")
    case True
    then show ?thesis using xy by (auto simp: round_half_even_def Let_def)
  next
    case False
    with fl have "\<lfloor>x\<rfloor> + 1 \<le> \<lfloor>y\<rfloor>" by simp
    then show ?thesis
      using round_half_even_bounds [of x] round_half_even_bounds [of y] by linarith
  qed
qed

lemma powi_add2: "(2::real) powi (a + b) = 2 powi a * 2 powi b"
  by (rule power_int_add) simp

lemma powi_split: "(2::real) powi a = 2 powi (a - b) * 2 powi b"
  using powi_add2 [of "a - b" b] by simp

lemma powi_53: "2 ^ 53 * 2 powi (e - 52) = (2::real) powi (e + 1)"
proof -
  have "(53::int) + (e - 52) = e + 1" by simp
  then show ?thesis using powi_add2 [of 53 "e - 52"] by (simp only: power_int_numeral)
qed

lemma powi_52: "2 ^ 52 * 2 powi (e - 52) = (2::real) powi e"
proof -
  have "(52::int) + (e - 52) = e" by simp
  then show ?thesis using powi_add2 [of 52 "e - 52"] by (simp only: power_int_numeral)
qed

lemma powi_pos: "0 < (2::real) powi a"
  by simp

lemma fl64_pos:
  "0 < x \<Longrightarrow>
   fl64 x = of_int (round_half_even (x / 2 powi (max (binade x) (- 1022) - 52)))
            * 2 powi (max (binade x) (- 1022) - 52)"
  by (simp add: fl64_def Let_def)

lemma fl64_zero: "fl64 0 = 0"
  by (simp add: fl64_def)

lemma round_half_even_nonneg: "0 \<le> z \<Longrightarrow> 0 \<le> round_half_even z"
  using round_half_even_mono [of 0 z] round_half_even_int [of 0] by simp

lemma fl64_nonneg: "0 \<le> x \<Longrightarrow> 0 \<le> fl64 x"
proof (cases "x = 0")
  case True
  then show ?thesis by (simp add: fl64_zero)
next
  case False
  assume "0 \<le> x"
  with False have x: "0 < x" by simp
  have "0 \<le> x / 2 powi (max (binade x) (- 1022) - 52)" using x by simp
  then have "0 \<le> round_half_even (x / 2 powi (max (binade x) (- 1022) - 52))"
    by (rule round_half_even_nonneg)
  then show ?thesis by (simp add: fl64_pos [OF x])
qed

text \<open>The scaled significand is below \<open>2^53\<close>, and at least \<open>2^52\<close> in the normal range.\<close>

lemma scaled_upper:
  assumes "0 < x" and "binade x \<le> e"
  shows "x / 2 powi (e - 52) < 2 ^ 53"
proof -
  have "x < 2 powi (binade x + 1)" using binade_bounds [OF assms(1)] by simp
  also have "\<dots> \<le> 2 powi (e + 1)" using assms(2) by (intro power_int_increasing) simp_all
  also have "\<dots> = 2 ^ 53 * 2 powi (e - 52)" by (rule powi_53 [symmetric])
  finally have "x < 2 ^ 53 * 2 powi (e - 52)" .
  then show ?thesis by (simp add: pos_divide_less_eq)
qed

lemma scaled_lower:
  assumes "0 < x"
  shows "2 ^ 52 \<le> x / 2 powi (binade x - 52)"
proof -
  have "2 ^ 52 * 2 powi (binade x - 52) \<le> x"
    unfolding powi_52 using binade_bounds [OF assms] by simp
  then show ?thesis by (simp add: pos_le_divide_eq)
qed

lemma rhe_upper: "z < 2 ^ 53 \<Longrightarrow> round_half_even z \<le> 2 ^ 53"
  using round_half_even_mono [of z "of_int (2 ^ 53)"] round_half_even_int [of "2 ^ 53"] by simp

lemma rhe_lower: "2 ^ 52 \<le> z \<Longrightarrow> 2 ^ 52 \<le> round_half_even z"
  using round_half_even_mono [of "of_int (2 ^ 52)" z] round_half_even_int [of "2 ^ 52"] by simp

lemma fl64_upper:
  assumes "0 < x"
  shows "fl64 x \<le> 2 powi (max (binade x) (- 1022) + 1)"
proof -
  let ?e = "max (binade x) (- 1022)"
  have "round_half_even (x / 2 powi (?e - 52)) \<le> 2 ^ 53"
    by (rule rhe_upper, rule scaled_upper [OF assms]) simp
  then have "real_of_int (round_half_even (x / 2 powi (?e - 52))) \<le> 2 ^ 53"
    by (metis of_int_le_iff of_int_numeral of_int_power)
  then have "fl64 x \<le> 2 ^ 53 * 2 powi (?e - 52)"
    unfolding fl64_pos [OF assms] by (intro mult_right_mono) simp_all
  also have "\<dots> = 2 powi (?e + 1)" by (rule powi_53)
  finally show ?thesis .
qed

lemma fl64_lower:
  assumes "0 < x" and "- 1022 \<le> binade x"
  shows "2 powi (binade x) \<le> fl64 x"
proof -
  have e: "max (binade x) (- 1022) = binade x" using assms(2) by simp
  have "2 ^ 52 \<le> round_half_even (x / 2 powi (binade x - 52))"
    by (rule rhe_lower, rule scaled_lower [OF assms(1)])
  then have "2 ^ 52 \<le> real_of_int (round_half_even (x / 2 powi (binade x - 52)))"
    by (metis of_int_le_iff of_int_numeral of_int_power)
  then have "2 ^ 52 * 2 powi (binade x - 52) \<le> fl64 x"
    unfolding fl64_pos [OF assms(1)] e by (intro mult_right_mono) simp_all
  then show ?thesis unfolding powi_52 .
qed

lemma binade_mono:
  assumes "0 < x" and "x \<le> y"
  shows "binade x \<le> binade y"
proof -
  have y: "0 < y" using assms by simp
  have "2 powi (binade x) \<le> x" using binade_bounds [OF assms(1)] by simp
  also have "x \<le> y" by fact
  also have "y < 2 powi (binade y + 1)" using binade_bounds [OF y] by simp
  finally have "binade x < binade y + 1" by (rule powi_less_imp)
  then show ?thesis by simp
qed

lemma fl64_mono:
  assumes "0 \<le> x" and "x \<le> y"
  shows "fl64 x \<le> fl64 y"
proof (cases "x = 0")
  case True
  then show ?thesis using assms fl64_nonneg [of y] by (simp add: fl64_zero)
next
  case False
  with assms have x: "0 < x" and y: "0 < y" by simp_all
  let ?ex = "max (binade x) (- 1022)" and ?ey = "max (binade y) (- 1022)"
  have le: "?ex \<le> ?ey" using binade_mono [OF x assms(2)] by simp
  show ?thesis
  proof (cases "?ex = ?ey")
    case True
    have "x / 2 powi (?ey - 52) \<le> y / 2 powi (?ey - 52)"
      using assms(2) by (simp add: divide_right_mono)
    then have "round_half_even (x / 2 powi (?ey - 52)) \<le> round_half_even (y / 2 powi (?ey - 52))"
      by (rule round_half_even_mono)
    then show ?thesis
      unfolding fl64_pos [OF x] fl64_pos [OF y] True by (intro mult_right_mono) simp_all
  next
    case False
    with le have lt: "?ex < ?ey" by linarith
    then have ny: "- 1022 \<le> binade y" and ey: "?ey = binade y" by linarith+
    have "fl64 x \<le> 2 powi (?ex + 1)" by (rule fl64_upper [OF x])
    also have "\<dots> \<le> 2 powi (binade y)"
    proof (rule power_int_increasing)
      show "?ex + 1 \<le> binade y" using lt ey by linarith
    qed simp
    also have "\<dots> \<le> fl64 y" by (rule fl64_lower [OF y ny])
    finally show ?thesis .
  qed
qed

lemma fl64_fixed:
  assumes r: "0 < r" and r53: "r < 2 ^ 53" and e: "- 1022 \<le> e"
  shows "fl64 (of_int r * 2 powi (e - 52)) = of_int r * 2 powi (e - 52)"
proof -
  let ?v = "real_of_int r * 2 powi (e - 52)"
  have v: "0 < ?v" using r by simp
  have "real_of_int r < 2 ^ 53" using r53 by (metis of_int_less_iff of_int_numeral of_int_power)
  then have "?v < 2 ^ 53 * 2 powi (e - 52)" by (intro mult_strict_right_mono) simp_all
  then have vlt: "?v < 2 powi (e + 1)" unfolding powi_53 .
  have "2 powi (binade ?v) \<le> ?v" using binade_bounds [OF v] by simp
  with vlt have "2 powi (binade ?v) < (2::real) powi (e + 1)" by linarith
  then have "binade ?v < e + 1" by (rule powi_less_imp)
  then have le: "max (binade ?v) (- 1022) \<le> e" using e by simp
  define e' where "e' = max (binade ?v) (- 1022)"
  define d where "d = nat (e - e')"
  have ee: "e - 52 = int d + (e' - 52)" using le by (simp add: d_def e'_def)
  have split: "(2::real) powi (e - 52) = 2 ^ d * 2 powi (e' - 52)"
    unfolding ee by (subst powi_add2) simp
  have "?v / 2 powi (e' - 52) = of_int (r * 2 ^ d)"
    by (simp add: split)
  then have "round_half_even (?v / 2 powi (e' - 52)) = r * 2 ^ d"
    by (simp only: round_half_even_int)
  then have "fl64 ?v = of_int (r * 2 ^ d) * 2 powi (e' - 52)"
    unfolding fl64_pos [OF v] e'_def [symmetric] by simp
  also have "\<dots> = ?v" by (simp add: split)
  finally show ?thesis .
qed

lemma fl64_pow2: "- 1022 \<le> e \<Longrightarrow> fl64 (2 powi e) = 2 powi e"
proof -
  assume e: "- 1022 \<le> e"
  have "fl64 (of_int (2 ^ 52) * 2 powi (e - 52)) = of_int (2 ^ 52) * 2 powi (e - 52)"
    by (rule fl64_fixed [OF _ _ e]) simp_all
  then show ?thesis using powi_52 [of e] by simp
qed

lemma fl64_idem:
  assumes "0 \<le> x"
  shows "fl64 (fl64 x) = fl64 x"
proof (cases "x = 0")
  case True
  then show ?thesis by (simp add: fl64_zero)
next
  case False
  with assms have x: "0 < x" by simp
  let ?e = "max (binade x) (- 1022)"
  let ?r = "round_half_even (x / 2 powi (?e - 52))"
  have v: "fl64 x = of_int ?r * 2 powi (?e - 52)" by (rule fl64_pos [OF x])
  have r0: "0 \<le> ?r" using x by (intro round_half_even_nonneg) simp
  have r53: "?r \<le> 2 ^ 53" by (rule rhe_upper, rule scaled_upper [OF x]) simp
  consider "?r = 0" | "0 < ?r" "?r < 2 ^ 53" | "?r = 2 ^ 53" using r0 r53 by linarith
  then show ?thesis
  proof cases
    case 1
    then show ?thesis by (simp add: v fl64_zero)
  next
    case 2
    show ?thesis unfolding v by (rule fl64_fixed [OF 2]) simp
  next
    case 3
    have "fl64 x = 2 ^ 53 * 2 powi (?e - 52)" by (simp add: v 3)
    then have "fl64 x = 2 powi (?e + 1)" unfolding powi_53 .
    moreover have "fl64 (2 powi (?e + 1)) = 2 powi (?e + 1)" by (rule fl64_pow2) simp
    ultimately show ?thesis by simp
  qed
qed

subsection \<open>The loops of \<open>decode\<close> and \<open>encode\<close>, and the base64 alphabet\<close>

lemma b64val_b64char: "i < 64 \<Longrightarrow> b64val (b64char i) = Some i"
  by (auto simp: b64val_def b64char_def unat_of_nat Let_def)

lemma b64char_not_pad: "i < 64 \<Longrightarrow> b64char i \<noteq> 61"
  using b64val_b64char [of i] by (auto simp: b64val_def)

lemma b64char_not_ws: "i < 64 \<Longrightarrow> \<not> is_ascii_whitespace (b64char i)"
  using b64val_b64char [of i] by (auto simp: b64val_def is_ascii_whitespace_def)

lemma decode_loop_eq:
  "i \<le> length s \<Longrightarrow> length bytes = length s \<Longrightarrow>
   decode_loop s i (length s) bytes = take i bytes @ map ucast (drop i s)"
proof (induction "length s - i" arbitrary: i bytes)
  case 0
  then show ?case by (simp add: decode_loop.simps)
next
  case (Suc n)
  then have lt: "i < length s" by simp
  have "decode_loop s i (length s) bytes
        = decode_loop s (Suc i) (length s) (bytes[i := ucast (s ! i)])"
    using lt by (subst decode_loop.simps) simp
  also have "\<dots> = take (Suc i) (bytes[i := ucast (s ! i)]) @ map ucast (drop (Suc i) s)"
    using Suc lt by (intro Suc.hyps(1)) auto
  also have "\<dots> = take i bytes @ map ucast (drop i s)"
    using lt Suc.prems
    by (simp add: take_Suc_conv_app_nth Cons_nth_drop_Suc [symmetric])
  finally show ?case .
qed

lemma decode_loop_map: "decode_loop s 0 (length s) (replicate (length s) 0) = map ucast s"
  using decode_loop_eq [of 0 s "replicate (length s) 0"] by simp

lemma encode_loop_eq:
  "i \<le> length bytes \<Longrightarrow>
   encode_loop bytes i (length bytes) binary = binary @ map ucast (drop i bytes)"
proof (induction "length bytes - i" arbitrary: i binary)
  case 0
  then show ?case by (simp add: encode_loop.simps)
next
  case (Suc n)
  then have lt: "i < length bytes" by simp
  have "encode_loop bytes i (length bytes) binary
        = encode_loop bytes (Suc i) (length bytes) (binary @ [ucast (bytes ! i)])"
    using lt by (subst encode_loop.simps) simp
  also have "\<dots> = (binary @ [ucast (bytes ! i)]) @ map ucast (drop (Suc i) bytes)"
    using Suc lt by (intro Suc.hyps(1)) auto
  also have "\<dots> = binary @ map ucast (drop i bytes)"
    using lt by (simp add: Cons_nth_drop_Suc [symmetric])
  finally show ?case .
qed

lemma encode_loop_map: "encode_loop bytes 0 (length bytes) [] = map ucast bytes"
  using encode_loop_eq [of 0 bytes "[]"] by simp

lemma replicate_two: "replicate 2 x = [x, x]"
  by (simp add: numeral_2_eq_2)

lemma b64_encode_decomp:
  "b64_encode ns = map b64char (b64_sextets ns) @ replicate (b64_pad ns) 61"
  by (induction ns rule: b64_encode.induct) (simp_all add: replicate_two)

lemma b64_pad_cases: "b64_pad ns = 0 \<or> b64_pad ns = 1 \<or> b64_pad ns = 2"
  by (induction ns rule: b64_pad.induct) simp_all

lemma length_b64_sextets:
  "length (b64_sextets ns) mod 4 = (if b64_pad ns = 0 then 0 else if b64_pad ns = 1 then 3 else 2)"
  by (induction ns rule: b64_sextets.induct) simp_all

lemma b64_sextets_bound:
  "list_all (\<lambda>n. n < 256) ns \<Longrightarrow> list_all (\<lambda>i. i < 64) (b64_sextets ns)"
  by (induction ns rule: b64_sextets.induct) auto

lemma div16_16: "b < 256 \<Longrightarrow> b div 16 div 16 = (0::nat)"
  by (simp add: div_mult2_eq [symmetric])

lemma sx1: "b < 256 \<Longrightarrow> a div 4 * 4 + (a mod 4 * 16 + b div 16) div 16 = (a::nat)"
  by (simp add: div16_16)

lemma div64_4: "c < 256 \<Longrightarrow> c div 64 div 4 = (0::nat)"
  by (simp add: div_mult2_eq [symmetric])

lemma sx2: "b < 256 \<Longrightarrow> c < 256 \<Longrightarrow>
  (a mod 4 * 16 + b div 16) mod 16 * 16 + (b mod 16 * 4 + c div 64) div 4 = (b::nat)"
proof -
  assume b: "b < 256" and c: "c < 256"
  have "b div 16 < 16" using b by simp
  then have 1: "(a mod 4 * 16 + b div 16) mod 16 = b div 16" by simp
  have 2: "(b mod 16 * 4 + c div 64) div 4 = b mod 16" using c by (simp add: div64_4)
  show ?thesis unfolding 1 2 by simp
qed

lemma sx3: "c < 256 \<Longrightarrow> (b mod 16 * 4 + c div 64) mod 4 * 64 + c mod 64 = (c::nat)"
proof -
  assume c: "c < 256"
  have "c div 64 < 4" using c by simp
  then have 1: "(b mod 16 * 4 + c div 64) mod 4 = c div 64" by simp
  show ?thesis unfolding 1 by simp
qed

lemma sx2': "b < 256 \<Longrightarrow>
  (a mod 4 * 16 + b div 16) mod 16 * 16 + (b mod 16 * 4) div 4 = (b::nat)"
proof -
  assume b: "b < 256"
  have "b div 16 < 16" using b by simp
  then have 1: "(a mod 4 * 16 + b div 16) mod 16 = b div 16" by simp
  show ?thesis unfolding 1 by simp
qed

lemma sx1': "a div 4 * 4 + (a mod 4 * 16) div 16 = (a::nat)"
  by simp

lemma b64_decode_bits_sextets:
  "list_all (\<lambda>n. n < 256) ns \<Longrightarrow> b64_decode_bits (b64_sextets ns) = ns"
proof (induction ns rule: b64_sextets.induct)
  case (1 a b c r)
  then have bnd: "a < 256" "b < 256" "c < 256" and ih: "b64_decode_bits (b64_sextets r) = r"
    by simp_all
  show ?case
    by (simp only: b64_sextets.simps b64_decode_bits.simps append_Cons append_Nil
          sx1 [OF bnd(2)] sx2 [OF bnd(2) bnd(3)] sx3 [OF bnd(3)] ih)
next
  case (2 a b)
  then have bnd: "b < 256" by simp
  show ?case
    by (simp only: b64_sextets.simps b64_decode_bits.simps sx1 [OF bnd] sx2' [OF bnd])
next
  case (3 a)
  show ?case by (simp only: b64_sextets.simps b64_decode_bits.simps sx1')
qed simp

lemma those_b64val:
  "list_all (\<lambda>i. i < 64) sx \<Longrightarrow> those (map b64val (map b64char sx)) = Some sx"
  by (induction sx) (simp_all add: b64val_b64char)

lemma filter_ws_b64:
  "filter (\<lambda>c. \<not> is_ascii_whitespace c) (map b64char sx @ replicate p 61)
   = map b64char sx @ replicate p 61" if "list_all (\<lambda>i. i < 64) sx"
proof -
  have "\<not> is_ascii_whitespace 61" by (simp add: is_ascii_whitespace_def)
  then show ?thesis using that by (auto simp: list_all_iff b64char_not_ws intro!: filter_True)
qed

lemma strip_padding_b64:
  assumes "list_all (\<lambda>i. i < 64) sx" and "(length sx + p) mod 4 = 0"
    and "p = 0 \<or> p = 1 \<and> sx \<noteq> [] \<or> p = 2"
  shows "strip_padding (map b64char sx @ replicate p 61) = map b64char sx"
proof -
  have nl: "sx \<noteq> [] \<Longrightarrow> last (map b64char sx) \<noteq> 61"
    using assms(1) by (simp add: last_map list_all_iff b64char_not_pad)
  consider "p = 0" | "p = 1" "sx \<noteq> []" | "p = 2" using assms(3) by blast
  then show ?thesis
  proof cases
    case 1
    then show ?thesis using nl by (cases "sx = []") (simp_all add: strip_padding_def)
  next
    case 2
    then show ?thesis using nl assms(2) by (simp add: strip_padding_def butlast_append)
  next
    case 3
    then show ?thesis using assms(2)
      by (simp add: strip_padding_def butlast_append replicate_two)
  qed
qed

lemma atob_b64_encode:
  assumes "list_all (\<lambda>n. n < 256) ns"
  shows "atob (b64_encode ns) = Inr (map of_nat ns)"
proof -
  let ?sx = "b64_sextets ns"
  have sx: "list_all (\<lambda>i. i < 64) ?sx" using assms by (rule b64_sextets_bound)
  have len: "(length ?sx + b64_pad ns) mod 4 = 0"
  proof -
    have "(length ?sx + b64_pad ns) mod 4 = (length ?sx mod 4 + b64_pad ns) mod 4"
      by (simp add: mod_simps)
    then show ?thesis
      using b64_pad_cases [of ns] by (auto simp: length_b64_sextets)
  qed
  have ne: "b64_pad ns = 0 \<or> b64_pad ns = 1 \<and> ?sx \<noteq> [] \<or> b64_pad ns = 2"
    using length_b64_sextets [of ns] b64_pad_cases [of ns] by auto
  have st: "strip_padding (filter (\<lambda>c. \<not> is_ascii_whitespace c) (b64_encode ns))
            = map b64char ?sx"
    unfolding b64_encode_decomp filter_ws_b64 [OF sx] by (rule strip_padding_b64 [OF sx len ne])
  have l1: "length ?sx mod 4 \<noteq> 1"
    using length_b64_sextets [of ns] by (simp split: if_splits)
  show ?thesis
    unfolding atob_def st Let_def
    using l1 by (simp add: those_b64val [OF sx] b64_decode_bits_sextets [OF assms] del: map_map)
qed

lemma unat_ucast_byte: "unat (ucast (x :: byte) :: code_unit) = unat x"
proof -
  have "unat x < 2 ^ 8" using unsigned_less [of x] by simp
  then have "unat x < 2 ^ 16" by simp
  then show ?thesis by (simp add: unsigned_ucast_eq take_bit_nat_eq_self)
qed

lemma unat_byte_le: "unat (x :: byte) \<le> 255"
  using unsigned_less [of x, where 'a = nat] by simp

lemma ucast_ucast_byte: "ucast (ucast (x :: byte) :: code_unit) = x"
  by (rule bit_word_eqI) (simp add: bit_simps)

lemma encode_eq: "encode b = Inr (b64_encode (map unat b))"
proof -
  have "\<not> list_ex (\<lambda>c. 255 < unat c) (map ucast b :: jsstring)"
    by (induction b) (simp_all add: unat_ucast_byte unat_byte_le not_less)
  then show ?thesis
    by (simp add: encode_def encode_loop_map btoa_def comp_def unat_ucast_byte)
qed

text \<open>The model on known encodings.\<close>

lemma encode_Man: "encode [77, 97, 110] = Inr (js ''TWFu'')"
  by code_simp

lemma encode_Ma: "encode [77, 97] = Inr (js ''TWE='')"
  by code_simp

lemma decode_padded: "decode (js ''TQ=='') = Inr [77]"
  by code_simp

lemma decode_invalid: "decode (js ''T'') = Inl InvalidCharacterError"
  by code_simp

lemma decode_b64_encode: "decode (b64_encode (map unat b)) = Inr b"
proof -
  have bnd: "list_all (\<lambda>n. n < 256) (map unat b)"
    using unsigned_less [where 'b = 8 and 'a = nat] by (simp add: list_all_iff)
  have "decode_loop (map of_nat (map unat b)) 0 (length b) (replicate (length b) 0) = b"
    using decode_loop_map [of "map of_nat (map unat b)"]
    by (simp add: comp_def ucast_ucast_byte)
  then show ?thesis
    by (simp add: decode_def atob_b64_encode [OF bnd] Let_def)
qed

subsection \<open>C2: base64 round trip\<close>

text \<open>
  Claim C2. For every byte sequence \<open>b\<close>, \<open>encode\<close> returns a text (it never throws:
  every code unit it hands to \<open>btoa\<close> is a byte), and \<open>decode\<close> applied to that text
  returns exactly \<open>b\<close>.
\<close>

theorem decode_encode_roundtrip: "\<exists>t. encode b = Inr t \<and> decode t = Inr b"
  by (simp add: encode_eq decode_b64_encode)

text \<open>The round trip on the three bytes of \<open>Man\<close>, whose encoding is \<open>TWFu\<close>.\<close>

theorem decode_encode_roundtrip_witness:
  "\<exists>t. encode [77, 97, 110] = Inr t \<and> decode t = Inr [77, 97, 110]"
  using decode_encode_roundtrip [of "[77, 97, 110]"] .

subsection \<open>The PCM16 conversions\<close>

lemma int16_loop_eq:
  "i \<le> length s \<Longrightarrow> length int16 = length s \<Longrightarrow>
   int16_loop s i (length s) int16 = take i int16 @ map (\<lambda>x. ToInt16 (x * 32768)) (drop i s)"
proof (induction "length s - i" arbitrary: i int16)
  case 0
  then show ?case by (simp add: int16_loop.simps)
next
  case (Suc n)
  then have lt: "i < length s" by simp
  have "int16_loop s i (length s) int16
        = int16_loop s (Suc i) (length s) (int16[i := ToInt16 (s ! i * 32768)])"
    using lt by (subst int16_loop.simps) simp
  also have "\<dots> = take (Suc i) (int16[i := ToInt16 (s ! i * 32768)])
                  @ map (\<lambda>x. ToInt16 (x * 32768)) (drop (Suc i) s)"
    using Suc lt by (intro Suc.hyps(1)) auto
  also have "\<dots> = take i int16 @ map (\<lambda>x. ToInt16 (x * 32768)) (drop i s)"
    using lt Suc.prems
    by (simp add: take_Suc_conv_app_nth Cons_nth_drop_Suc [symmetric])
  finally show ?case .
qed

lemma AudioFrame_map: "AudioFrame s = map (\<lambda>x. ToInt16 (x * 32768)) s"
  using int16_loop_eq [of 0 s "replicate (length s) 0"] by (simp add: AudioFrame_def)

lemma length_bytes_of_int16: "length (bytes_of_int16 ws) = 2 * length ws"
  by (induction ws) simp_all

lemma int16_bytes_word: "ucast (ucast w :: byte) OR push_bit 8 (ucast (ucast (drop_bit 8 w) :: byte)) = (w :: 16 word)"
  by (rule bit_word_eqI) (auto simp: bit_simps)

lemma int16_of_bytes_of_int16: "int16_of_bytes (bytes_of_int16 ws) = ws"
  by (induction ws) (simp_all add: int16_bytes_word)

lemma sample_loop_mono_eq:
  "i \<le> length d \<Longrightarrow> length cd = length d \<Longrightarrow>
   sample_loop d (Suc 0) 0 (real (length d)) i cd
   = take i cd @ map (\<lambda>w. real_of_int (sint w) / 32768) (drop i d)"
proof (induction "length d - i" arbitrary: i cd)
  case 0
  then show ?case by (simp add: sample_loop.simps)
next
  case (Suc n)
  then have lt: "i < length d" by simp
  let ?v = "real_of_int (sint (d ! i)) / 32768"
  have "sample_loop d (Suc 0) 0 (real (length d)) i cd
        = sample_loop d (Suc 0) 0 (real (length d)) (Suc i) (cd[i := ?v])"
    using lt by (subst sample_loop.simps) simp
  also have "\<dots> = take (Suc i) (cd[i := ?v])
                  @ map (\<lambda>w. real_of_int (sint w) / 32768) (drop (Suc i) d)"
    using Suc lt by (intro Suc.hyps(1)) auto
  also have "\<dots> = take i cd @ map (\<lambda>w. real_of_int (sint w) / 32768) (drop i d)"
    using lt Suc.prems
    by (simp add: take_Suc_conv_app_nth Cons_nth_drop_Suc [symmetric])
  finally show ?case .
qed

lemma channel_loop_mono: "channel_loop d (Suc 0) f 0 [cd] = [sample_loop d (Suc 0) 0 f 0 cd]"
  by (subst channel_loop.simps, subst channel_loop.simps) simp

lemma decodeAudioData_mono:
  assumes "ws \<noteq> []" and "0 < rate"
  shows "decodeAudioData (bytes_of_int16 ws) rate 1
         = Inr \<lparr>sampleRate = rate, buf_length = length ws,
                getChannelData = [map (\<lambda>w. real_of_int (sint w) / 32768) ws]\<rparr>"
  using assms sample_loop_mono_eq [of 0 ws "replicate (length ws) 0"]
  by (simp add: decodeAudioData_def Int16Array_of_buffer_def length_bytes_of_int16
        int16_of_bytes_of_int16 createBuffer_def channel_loop_mono)

lemma trunc_zero_error: "\<bar>real_of_int (trunc_zero y) - y\<bar> < 1"
  unfolding trunc_zero_def by (cases "0 \<le> y") (simp; linarith)+

lemma trunc_zero_range:
  assumes "- 32768 \<le> y" and "y < 32768"
  shows "- 32768 \<le> trunc_zero y \<and> trunc_zero y < 32768"
  using assms unfolding trunc_zero_def by (auto simp: le_floor_iff floor_less_iff ceiling_less_iff le_ceiling_iff; linarith)

lemma sint_ToInt16: "sint (ToInt16 y) = (trunc_zero y + 32768) mod 65536 - 32768"
  by (simp add: ToInt16_def int_word_sint)

lemma sint_ToInt16_in_range:
  assumes "- 32768 \<le> y" and "y < 32768"
  shows "sint (ToInt16 y) = trunc_zero y"
  using trunc_zero_range [OF assms] by (simp add: sint_ToInt16)

lemma pcm_sample_error:
  assumes "- 1 \<le> x" and "x < 1"
  shows "\<bar>real_of_int (sint (ToInt16 (x * 32768))) / 32768 - x\<bar> < 1 / 32768"
proof -
  have "sint (ToInt16 (x * 32768)) = trunc_zero (x * 32768)"
    using assms by (intro sint_ToInt16_in_range) simp_all
  moreover have "\<bar>real_of_int (trunc_zero (x * 32768)) - x * 32768\<bar> < 1"
    by (rule trunc_zero_error)
  ultimately show ?thesis by (simp add: field_simps abs_if split: if_splits)
qed


lemma bytes_of_int16_concat:
  "bytes_of_int16 ws = concat (map (\<lambda>w. [ucast w, ucast (drop_bit 8 w)]) ws)"
  by (induction ws) simp_all

text \<open>The model on a short frame: a half, full scale down and full scale up.\<close>

lemma samplesToPCM16_example: "samplesToPCM16 [1/2, - 1, 1] = [0, 64, 0, 128, 0, 128]"
  by code_simp

subsection \<open>C4: the capture-side conversion\<close>

text \<open>
  Claim C4, as amended. The capture callback maps each float sample \<open>s\<close> to the 16-bit
  signed integer obtained by truncating \<open>s * 32768\<close> towards zero (not by rounding it),
  with no clamping: the truncated value is taken modulo \<open>2 ^ 16\<close> into the signed range,
  so an out-of-range product wraps around. The bytes of the frame are its elements, low
  byte first.
\<close>

theorem samplesToPCM16_truncates_and_wraps:
  "length (AudioFrame s) = length s
   \<and> (\<forall>i < length s.
        sint (AudioFrame s ! i) = (trunc_zero (s ! i * 32768) + 32768) mod 65536 - 32768)
   \<and> samplesToPCM16 s = concat (map (\<lambda>w. [ucast w, ucast (drop_bit 8 w)]) (AudioFrame s))"
  by (simp add: AudioFrame_map sint_ToInt16 samplesToPCM16_def bytes_of_int16_concat)

text \<open>
  On three samples: \<open>7 / 131072\<close>, whose product with 32768 is \<open>1.75\<close>, becomes 1;
  full scale \<open>1\<close> wraps to \<open>-32768\<close>; \<open>-1/2\<close> becomes \<open>-16384\<close>.
\<close>

theorem samplesToPCM16_truncates_and_wraps_witness:
  "sint (AudioFrame [7 / 131072, 1, - 1 / 2] ! 0) = 1
   \<and> sint (AudioFrame [7 / 131072, 1, - 1 / 2] ! 1) = - 32768
   \<and> sint (AudioFrame [7 / 131072, 1, - 1 / 2] ! 2) = - 16384"
proof -
  have "\<forall>i < length [7 / 131072, 1, - 1 / 2 :: real].
        sint (AudioFrame [7 / 131072, 1, - 1 / 2] ! i)
        = (trunc_zero ([7 / 131072, 1, - 1 / 2] ! i * 32768) + 32768) mod 65536 - 32768"
    using samplesToPCM16_truncates_and_wraps [of "[7 / 131072, 1, - 1 / 2]"] by (elim conjE)
  then have "sint (AudioFrame [7 / 131072, 1, - 1 / 2] ! 0)
             = (trunc_zero (7 / 131072 * 32768) + 32768) mod 65536 - 32768"
    and "sint (AudioFrame [7 / 131072, 1, - 1 / 2] ! 1)
         = (trunc_zero (1 * 32768) + 32768) mod 65536 - 32768"
    and "sint (AudioFrame [7 / 131072, 1, - 1 / 2] ! 2)
         = (trunc_zero (- 1 / 2 * 32768) + 32768) mod 65536 - 32768"
    by (auto dest: spec [of _ 0] spec [of _ 1] spec [of _ 2])
  then show ?thesis by (simp add: trunc_zero_def)
qed

text \<open>
  Claim C4 as stated fails: the sample \<open>7 / 131072\<close> gives the product \<open>1.75\<close>, which
  rounds to 2, and the frame holds 1.
\<close>

theorem samplesToPCM16_round_counterexample:
  "sint (AudioFrame [7 / 131072] ! 0) = 1 \<and> round (7 / 131072 * 32768 :: real) = 2"
  by (simp add: AudioFrame_map sint_ToInt16 trunc_zero_def round_def)

subsection \<open>C3: PCM16 there and back\<close>

text \<open>
  Claim C3, as amended. For every non-empty array of float samples \<open>s\<close> with each value
  in the half-open interval from \<open>-1\<close> (included) to \<open>1\<close> (excluded), converting to PCM16
  bytes on the capture side and back with \<open>decodeAudioData\<close> on one channel yields a
  buffer of one channel, as long as \<open>s\<close>, whose samples differ from those of \<open>s\<close> by
  less than \<open>1 / 32768\<close> each.
\<close>

theorem pcm16_roundtrip_tolerance:
  assumes "s \<noteq> []" and "\<forall>x \<in> set s. - 1 \<le> x \<and> x < 1"
  shows "\<exists>ch. decodeAudioData (samplesToPCM16 s) 24000 1
                = Inr \<lparr>sampleRate = 24000, buf_length = length s, getChannelData = [ch]\<rparr>
              \<and> length ch = length s
              \<and> (\<forall>i < length s. \<bar>ch ! i - s ! i\<bar> < 1 / 32768)"
proof -
  let ?ch = "map (\<lambda>w. real_of_int (sint w) / 32768) (AudioFrame s)"
  have ne: "AudioFrame s \<noteq> []" using assms(1) by (simp add: AudioFrame_map)
  have dec: "decodeAudioData (samplesToPCM16 s) 24000 1
             = Inr \<lparr>sampleRate = 24000, buf_length = length s, getChannelData = [?ch]\<rparr>"
    unfolding samplesToPCM16_def
    by (subst decodeAudioData_mono [OF ne]) (simp_all add: AudioFrame_map)
  have err: "\<bar>?ch ! i - s ! i\<bar> < 1 / 32768" if "i < length s" for i
  proof -
    have "s ! i \<in> set s" using that by simp
    then have "- 1 \<le> s ! i" "s ! i < 1" using assms(2) by auto
    from pcm_sample_error [OF this] show ?thesis using that by (simp add: AudioFrame_map)
  qed
  show ?thesis using dec err by (intro exI [of _ ?ch]) (simp add: AudioFrame_map)
qed

text \<open>On the two samples \<open>1/2\<close> and \<open>-1\<close>.\<close>

theorem pcm16_roundtrip_tolerance_witness:
  "\<exists>ch. decodeAudioData (samplesToPCM16 [1/2, - 1]) 24000 1
          = Inr \<lparr>sampleRate = 24000, buf_length = 2, getChannelData = [ch]\<rparr>
        \<and> length ch = 2
        \<and> \<bar>ch ! 0 - 1/2\<bar> < 1 / 32768 \<and> \<bar>ch ! 1 - (- 1)\<bar> < 1 / 32768"
proof -
  have "[1/2, - 1 :: real] \<noteq> []" and "\<forall>x \<in> set [1/2, - 1 :: real]. - 1 \<le> x \<and> x < 1"
    by simp_all
  from pcm16_roundtrip_tolerance [OF this] obtain ch where
    "decodeAudioData (samplesToPCM16 [1/2, - 1]) 24000 1
      = Inr \<lparr>sampleRate = 24000, buf_length = 2, getChannelData = [ch]\<rparr>"
    "length ch = 2" "\<forall>i < 2. \<bar>ch ! i - [1/2, - 1] ! i\<bar> < 1 / 32768"
    by auto
  moreover from this(3) have "\<bar>ch ! 0 - 1/2\<bar> < 1 / 32768" "\<bar>ch ! 1 - (- 1)\<bar> < 1 / 32768"
    by (auto dest: spec [of _ 0] spec [of _ 1])
  ultimately show ?thesis by blast
qed

text \<open>
  Claim C3 as stated fails at both ends of what it covers. The sample \<open>1\<close> lies in the
  closed interval; its product 32768 wraps to \<open>-32768\<close> and comes back as \<open>-1\<close>, two
  away from the sample. The empty array has no bytes, and \<open>createBuffer\<close> refuses a
  buffer of no frames.
\<close>

theorem pcm16_full_scale_counterexample:
  "decodeAudioData (samplesToPCM16 [1]) 24000 1
     = Inr \<lparr>sampleRate = 24000, buf_length = 1, getChannelData = [[- 1]]\<rparr>
   \<and> \<not> \<bar>(- 1 :: real) - 1\<bar> \<le> 1 / 32768
   \<and> decodeAudioData (samplesToPCM16 []) 24000 1 = Inl NotSupportedError"
  by code_simp

subsection \<open>C5: one capture callback, one frame, one send\<close>



text \<open>The payload of a short callback, two samples, in full.\<close>

lemma onaudioprocess_example:
  "sent (step (run init [Toggle True, Open 0]) (AudioProcess 0 [1/2, - 1/4]))
   = [(0, \<lparr>data = js ''AEAA4A=='', mimeType = js ''audio/pcm;rate=16000''\<rparr>)]"
  by code_simp

subsection \<open>The playback scheduler\<close>

lemma decodeAudioData_rate:
  "decodeAudioData bytes rate n = Inr buf \<Longrightarrow> sampleRate buf = rate \<and> 0 < rate"
  by (auto simp: decodeAudioData_def createBuffer_def Let_def split: sum.splits if_splits)

lemma decodeAudioData_duration:
  "decodeAudioData bytes rate n = Inr buf \<Longrightarrow> 0 \<le> duration buf"
  using decodeAudioData_rate [of bytes rate n buf]
  by (simp add: duration_def fl64_nonneg)

lemma onmessage_Inr:
  assumes "onmessage st now m = Inr st'"
  shows "st' = st\<lparr>liveTranscript := liveTranscript st @ transcriptions m\<rparr>
         \<or> (\<exists>buf. 0 \<le> duration buf
               \<and> st' = (schedule st now buf)\<lparr>liveTranscript := liveTranscript st @ transcriptions m\<rparr>)"
  using assms
  by (auto simp: onmessage_def schedule_def Let_def dest: decodeAudioData_duration
           split: sum.splits option.splits if_splits)

text \<open>
  The rounded sum does not fall below the cursor: the cursor is a double, the sum is
  no less than it, and rounding is monotone.
\<close>

lemma cursor_le_rounded_sum:
  assumes c0: "0 \<le> c" and c: "fl64 c = c" and d: "0 \<le> d"
  shows "c \<le> fl64 (max c now + d)"
proof -
  have "c \<le> max c now + d" using d by simp
  from fl64_mono [OF c0 this] show ?thesis by (simp add: c)
qed

lemma schedule_in_order:
  assumes inv: "scheduled_in_order st" and d: "0 \<le> duration buf"
  shows "scheduled_in_order (schedule st now buf)"
proof -
  let ?log = "started st"
  let ?t = "max (nextStartTimeRef st) now"
  let ?c = "\<lparr>src = length ?log, deviceTime = now, startTime = ?t, buffer = buf\<rparr>"
  have log': "started (schedule st now buf) = ?log @ [?c]"
    and cur': "nextStartTimeRef (schedule st now buf) = fl64 (?t + duration buf)"
    by (simp_all add: schedule_def Let_def)
  have c0: "0 \<le> nextStartTimeRef st" and cfl: "fl64 (nextStartTimeRef st) = nextStartTimeRef st"
    using inv by (simp_all add: scheduled_in_order_def)
  have up: "nextStartTimeRef st \<le> fl64 (?t + duration buf)"
    by (rule cursor_le_rounded_sum [OF c0 cfl d])
  have old: "deviceTime c \<le> startTime c
             \<and> fl64 (startTime c + duration (buffer c)) \<le> nextStartTimeRef st"
    if "c \<in> set ?log" for c
    using inv that by (simp add: scheduled_in_order_def)
  have chain: "fl64 (startTime ((?log @ [?c]) ! n) + duration (buffer ((?log @ [?c]) ! n)))
               \<le> startTime ((?log @ [?c]) ! Suc n)"
    if n: "Suc n < length (?log @ [?c])" for n
  proof (cases "Suc n < length ?log")
    case True
    then show ?thesis using inv by (simp add: scheduled_in_order_def nth_append)
  next
    case False
    with n have eq: "Suc n = length ?log" by simp
    then have "?log ! n \<in> set ?log" by simp
    from old [OF this] have "fl64 (startTime (?log ! n) + duration (buffer (?log ! n))) \<le> ?t"
      by linarith
    then show ?thesis using eq by (simp add: nth_append)
  qed
  have ends: "deviceTime c \<le> startTime c
              \<and> fl64 (startTime c + duration (buffer c)) \<le> fl64 (?t + duration buf)"
    if "c \<in> set (?log @ [?c])" for c
  proof (cases "c \<in> set ?log")
    case True
    from old [OF this] show ?thesis using up by linarith
  next
    case False
    with that have "c = ?c" by simp
    then show ?thesis by simp
  qed
  have pos: "0 \<le> fl64 (?t + duration buf)" using c0 up by linarith
  have "0 \<le> ?t + duration buf" using c0 d by simp
  then have idem: "fl64 (fl64 (?t + duration buf)) = fl64 (?t + duration buf)"
    by (rule fl64_idem)
  show ?thesis
    unfolding scheduled_in_order_def log' cur' using chain ends pos idem by blast
qed

lemma schedule_cursor_mono:
  "scheduled_in_order st \<Longrightarrow> 0 \<le> duration buf \<Longrightarrow>
   nextStartTimeRef st \<le> nextStartTimeRef (schedule st now buf)"
  by (simp add: schedule_def Let_def scheduled_in_order_def cursor_le_rounded_sum)

lemma in_order_cong:
  "started st' = started st \<Longrightarrow> nextStartTimeRef st' = nextStartTimeRef st \<Longrightarrow>
   scheduled_in_order st \<Longrightarrow> scheduled_in_order st'"
  by (simp add: scheduled_in_order_def)

lemma onaudioprocess_Inr:
  "onaudioprocess st sid inputData = Inr st' \<Longrightarrow> \<exists>p. st' = st\<lparr>sent := sent st @ [p]\<rparr>"
  by (auto simp: onaudioprocess_def split: sum.splits)

lemma step_in_order: "scheduled_in_order st \<Longrightarrow> scheduled_in_order (step st e)"
proof (cases e)
  case (Message now m)
  assume inv: "scheduled_in_order st"
  show ?thesis
  proof (cases "onmessage st now m")
    case (Inl err)
    then show ?thesis using inv Message by simp
  next
    case (Inr st')
    from onmessage_Inr [OF this] show ?thesis
    proof
      assume "st' = st\<lparr>liveTranscript := liveTranscript st @ transcriptions m\<rparr>"
      then show ?thesis using inv Message Inr by (auto intro: in_order_cong [OF _ _ inv])
    next
      assume "\<exists>buf. 0 \<le> duration buf
               \<and> st' = (schedule st now buf)\<lparr>liveTranscript := liveTranscript st @ transcriptions m\<rparr>"
      then obtain buf where d: "0 \<le> duration buf"
        and st': "st' = (schedule st now buf)\<lparr>liveTranscript := liveTranscript st @ transcriptions m\<rparr>"
        by blast
      have "scheduled_in_order st'"
        unfolding st' by (rule in_order_cong [OF _ _ schedule_in_order [OF inv d]]) simp_all
      then show ?thesis using Message Inr by simp
    qed
  qed
next
  case (AudioProcess sid inputData)
  assume inv: "scheduled_in_order st"
  show ?thesis
  proof (cases "onaudioprocess st sid inputData")
    case (Inl err)
    then show ?thesis using inv AudioProcess by simp
  next
    case (Inr st')
    from onaudioprocess_Inr [OF this] show ?thesis
      using inv AudioProcess Inr by (auto intro: in_order_cong [OF _ _ inv])
  qed
qed (auto simp: toggleLiveReporting_def onopen_def onclose_def onerror_def onended_def Let_def
       intro: in_order_cong)

lemma run_in_order: "scheduled_in_order st \<Longrightarrow> scheduled_in_order (run st evs)"
  by (induction evs arbitrary: st) (simp_all add: step_in_order)

lemma init_in_order: "scheduled_in_order init"
  by (simp add: scheduled_in_order_def init_def fl64_zero)

lemma step_cursor_mono:
  assumes inv: "scheduled_in_order st"
  shows "nextStartTimeRef st \<le> nextStartTimeRef (step st e)"
proof (cases e)
  case (Message now m)
  show ?thesis
  proof (cases "onmessage st now m")
    case (Inl err)
    then show ?thesis using Message by simp
  next
    case (Inr st')
    from onmessage_Inr [OF this] show ?thesis
      using Message Inr inv by (auto simp: schedule_cursor_mono)
  qed
next
  case (AudioProcess sid inputData)
  show ?thesis
  proof (cases "onaudioprocess st sid inputData")
    case (Inl err)
    then show ?thesis using AudioProcess by simp
  next
    case (Inr st')
    from onaudioprocess_Inr [OF this] show ?thesis using AudioProcess Inr by auto
  qed
qed (simp_all add: toggleLiveReporting_def onopen_def onclose_def onerror_def onended_def Let_def)

lemma run_cursor_mono:
  "scheduled_in_order st \<Longrightarrow> nextStartTimeRef st \<le> nextStartTimeRef (run st evs)"
proof (induction evs arbitrary: st)
  case Nil
  show ?case by simp
next
  case (Cons e es)
  have "nextStartTimeRef st \<le> nextStartTimeRef (step st e)"
    by (rule step_cursor_mono [OF Cons.prems])
  also have "\<dots> \<le> nextStartTimeRef (run (step st e) es)"
    by (rule Cons.IH [OF step_in_order [OF Cons.prems]])
  finally show ?case by simp
qed

lemma run_append: "run st (evs @ evs') = run (run st evs) evs'"
  by (induction evs arbitrary: st) simp_all

text \<open>
  The model on two chunks of two and three frames arriving at the same device time:
  the device time, the start time and the duration of each, as JavaScript computes
  them (0.5, 0.5 and 8.333333333333333e-05; 0.5, 0.5000833333333333 and 0.000125).
\<close>

lemma two_chunks_example:
  "map (\<lambda>c. (deviceTime c, startTime c, duration (buffer c)))
     (started (run init [Toggle True, Open 0,
                         Message (1/2) (audio_message (js ''AAAAAA=='')),
                         Message (1/2) (audio_message (js ''AAAAAAAA''))]))
   = [(1/2, 1/2, 6148914691236517 / 2 ^ 66),
      (1/2, 4504350227308391 / 2 ^ 53, 4611686018427388 / 2 ^ 65)]"
  by code_simp

subsection \<open>C1: start times in order\<close>

text \<open>
  Claim C1, as amended. Scheduling a decoded buffer starts it at the maximum of the
  cursor and the device time, and moves the cursor to the double nearest that start
  time plus the buffer's duration: the addition is the source's addition of doubles.
  Consequently, after any run of events from the mounted component, whatever their
  interleaving: each scheduled chunk starts no earlier than the rounded sum of the
  start time and the duration of the chunk before it; each chunk, the first included,
  starts no earlier than the device time at its scheduling; and the cursor never
  decreases as the run goes on.
\<close>

theorem playback_start_times_ordered:
  "started (schedule st now buf)
     = started st @ [\<lparr>src = length (started st), deviceTime = now,
                      startTime = max (nextStartTimeRef st) now, buffer = buf\<rparr>]
   \<and> nextStartTimeRef (schedule st now buf)
       = fl64 (max (nextStartTimeRef st) now + duration buf)
   \<and> (\<forall>n. Suc n < length (started (run init evs)) \<longrightarrow>
         fl64 (startTime (started (run init evs) ! n)
               + duration (buffer (started (run init evs) ! n)))
           \<le> startTime (started (run init evs) ! Suc n))
   \<and> (\<forall>n < length (started (run init evs)).
         deviceTime (started (run init evs) ! n) \<le> startTime (started (run init evs) ! n))
   \<and> nextStartTimeRef (run init evs) \<le> nextStartTimeRef (run init (evs @ evs'))"
proof -
  have inv: "scheduled_in_order (run init evs)"
    by (rule run_in_order [OF init_in_order])
  have 1: "started (schedule st now buf)
     = started st @ [\<lparr>src = length (started st), deviceTime = now,
                      startTime = max (nextStartTimeRef st) now, buffer = buf\<rparr>]"
    and 2: "nextStartTimeRef (schedule st now buf)
            = fl64 (max (nextStartTimeRef st) now + duration buf)"
    by (simp_all add: schedule_def Let_def)
  have 3: "\<forall>n. Suc n < length (started (run init evs)) \<longrightarrow>
         fl64 (startTime (started (run init evs) ! n)
               + duration (buffer (started (run init evs) ! n)))
           \<le> startTime (started (run init evs) ! Suc n)"
    using inv by (simp add: scheduled_in_order_def)
  have 4: "\<forall>n < length (started (run init evs)).
         deviceTime (started (run init evs) ! n) \<le> startTime (started (run init evs) ! n)"
    using inv by (simp add: scheduled_in_order_def)
  have 5: "nextStartTimeRef (run init evs) \<le> nextStartTimeRef (run init (evs @ evs'))"
    unfolding run_append by (rule run_cursor_mono [OF inv])
  from 1 2 3 4 5 show ?thesis by blast
qed

text \<open>
  On the run of the two chunks above: the second starts no earlier than the rounded
  end of the first.
\<close>

theorem playback_start_times_ordered_witness:
  "fl64 (startTime (started (run init [Toggle True, Open 0,
                                 Message (1/2) (audio_message (js ''AAAAAA=='')),
                                 Message (1/2) (audio_message (js ''AAAAAAAA''))]) ! 0)
         + duration (buffer (started (run init [Toggle True, Open 0,
                                 Message (1/2) (audio_message (js ''AAAAAA=='')),
                                 Message (1/2) (audio_message (js ''AAAAAAAA''))]) ! 0)))
   \<le> startTime (started (run init [Toggle True, Open 0,
                                 Message (1/2) (audio_message (js ''AAAAAA=='')),
                                 Message (1/2) (audio_message (js ''AAAAAAAA''))]) ! Suc 0)"
proof -
  let ?evs = "[Toggle True, Open 0, Message (1/2) (audio_message (js ''AAAAAA=='')),
               Message (1/2) (audio_message (js ''AAAAAAAA''))]"
  have len: "Suc 0 < length (started (run init ?evs))" by code_simp
  have "\<forall>n. Suc n < length (started (run init ?evs)) \<longrightarrow>
         fl64 (startTime (started (run init ?evs) ! n)
               + duration (buffer (started (run init ?evs) ! n)))
           \<le> startTime (started (run init ?evs) ! Suc n)"
    using playback_start_times_ordered
            [of init 0 "\<lparr>sampleRate = 24000, buf_length = 1, getChannelData = [[0]]\<rparr>" ?evs "[]"]
    by (elim conjE)
  then show ?thesis using len by blast
qed

text \<open>
  Claim C1 as stated fails by the rounding of the cursor's addition. On the same run
  the first chunk starts at 0.5 and lasts the double nearest \<open>2 / 24000\<close>; the second
  starts at the double nearest their sum, 0.5000833333333333, which lies below the sum
  itself by \<open>677 / 2^66\<close>.
\<close>

theorem exact_sum_counterexample:
  "startTime (started (run init [Toggle True, Open 0,
                                 Message (1/2) (audio_message (js ''AAAAAA=='')),
                                 Message (1/2) (audio_message (js ''AAAAAAAA''))]) ! Suc 0)
   < startTime (started (run init [Toggle True, Open 0,
                                 Message (1/2) (audio_message (js ''AAAAAA=='')),
                                 Message (1/2) (audio_message (js ''AAAAAAAA''))]) ! 0)
     + duration (buffer (started (run init [Toggle True, Open 0,
                                 Message (1/2) (audio_message (js ''AAAAAA=='')),
                                 Message (1/2) (audio_message (js ''AAAAAAAA''))]) ! 0))
   \<and> startTime (started (run init [Toggle True, Open 0,
                                 Message (1/2) (audio_message (js ''AAAAAA=='')),
                                 Message (1/2) (audio_message (js ''AAAAAAAA''))]) ! 0)
     + duration (buffer (started (run init [Toggle True, Open 0,
                                 Message (1/2) (audio_message (js ''AAAAAA=='')),
                                 Message (1/2) (audio_message (js ''AAAAAAAA''))]) ! 0))
     - startTime (started (run init [Toggle True, Open 0,
                                 Message (1/2) (audio_message (js ''AAAAAA=='')),
                                 Message (1/2) (audio_message (js ''AAAAAAAA''))]) ! Suc 0)
     = 677 / 2 ^ 66"
  by code_simp

subsection \<open>The transcript\<close>






subsection \<open>C8: the transcript under inbound events\<close>



text \<open>The entries that message appends.\<close>

lemma transcriptions_example:
  "transcriptions \<lparr>serverContent = Some
        \<lparr>modelTurn = None,
         outputTranscription = Some \<lparr>transcription_text = Some (js ''Hello'')\<rparr>,
         inputTranscription = Some \<lparr>transcription_text = None\<rparr>\<rparr>\<rparr>
   = [\<lparr>role = AI, entry_text = js ''Hello''\<rparr>, \<lparr>role = User, entry_text = []\<rparr>]"
  by (simp add: transcriptions_def)


subsection \<open>C10: the transcript when a session opens\<close>

text \<open>
  Claim C10. When \<open>onopen\<close> fires, the transcript becomes the single system entry that
  announces the connection, whatever it held: after any run of events that ends with
  \<open>onopen\<close>, the entries of earlier sessions are gone.
\<close>

theorem onopen_replaces_transcript:
  "liveTranscript (onopen st sid)
     = [\<lparr>role = System, entry_text = js ''Assistant connected. Describe the school situation.''\<rparr>]
   \<and> liveTranscript (run st (evs @ [Open sid]))
     = [\<lparr>role = System, entry_text = js ''Assistant connected. Describe the school situation.''\<rparr>]"
  by (simp add: run_append onopen_def)

text \<open>
  On a first session that receives a transcription and is stopped, and a second one
  that opens.
\<close>

theorem onopen_replaces_transcript_witness:
  "liveTranscript (run init
     ([Toggle True, Open 0,
       Message 0 \<lparr>serverContent = Some
          \<lparr>modelTurn = None,
           outputTranscription = Some \<lparr>transcription_text = Some (js ''Hello'')\<rparr>,
           inputTranscription = None\<rparr>\<rparr>,
       Toggle True, Toggle True] @ [Open 1]))
   = [\<lparr>role = System, entry_text = js ''Assistant connected. Describe the school situation.''\<rparr>]"
  using onopen_replaces_transcript
          [of init 1 "[Toggle True, Open 0,
             Message 0 \<lparr>serverContent = Some
                \<lparr>modelTurn = None,
                 outputTranscription = Some \<lparr>transcription_text = Some (js ''Hello'')\<rparr>,
                 inputTranscription = None\<rparr>\<rparr>,
             Toggle True, Toggle True]"]
  by (elim conjE)

subsection \<open>C6: a second start request\<close>

text \<open>With the flag set, the toggle is the stop branch: it starts nothing.\<close>

lemma toggle_with_flag_set:
  assumes "isLiveActive st"
  shows "sessions (toggleLiveReporting st acquired) = sessions st
         \<and> contexts (toggleLiveReporting st acquired) = contexts st
         \<and> \<not> isLiveActive (toggleLiveReporting st acquired)"
  using assms by (simp add: toggleLiveReporting_def)

text \<open>The flag is set by \<open>onopen\<close> alone: no other event sets a flag that was clear.\<close>

lemma only_onopen_sets_flag:
  "\<not> isLiveActive st \<Longrightarrow> isLiveActive (step st e) \<Longrightarrow> \<exists>sid. e = Open sid"
  by (cases e)
     (auto simp: toggleLiveReporting_def onclose_def onerror_def onended_def onmessage_def
         onaudioprocess_def schedule_def Let_def split: sum.splits option.splits if_splits)

text \<open>
  Claim C6, on the code. After one start request the session is connecting: the flag
  is still clear (\<open>onopen\<close> has not fired) and one session has been requested on the
  contexts 0 and 1. A second start request then requests a second session and
  allocates the contexts 2 and 3, which replace the first pair in the refs. When both
  sessions have opened, a stop closes the contexts 2 and 3 only: the first pair is
  never closed.
\<close>

theorem second_start_while_connecting:
  "\<not> isLiveActive (run init [Toggle True])
   \<and> sessions (run init [Toggle True]) = [(0, 1)]
   \<and> sessions (run init [Toggle True, Toggle True]) = [(0, 1), (2, 3)]
   \<and> contexts (run init [Toggle True, Toggle True]) = [16000, 24000, 16000, 24000]
   \<and> inputCtxRef (run init [Toggle True, Toggle True]) = Some 2
   \<and> audioContextRef (run init [Toggle True, Toggle True]) = Some 3
   \<and> closed (run init [Toggle True, Toggle True, Open 0, Open 1, Toggle True]) = [2, 3]"
  by code_simp

subsection \<open>C9: the scheduler's state across sessions\<close>

text \<open>
  Neither branch of \<open>toggleLiveReporting\<close> writes the cursor or the set of live sources,
  and \<open>onopen\<close> does not either.
\<close>

lemma toggle_keeps_scheduler_state:
  "nextStartTimeRef (toggleLiveReporting st a) = nextStartTimeRef st
   \<and> sourcesRef (toggleLiveReporting st a) = sourcesRef st
   \<and> nextStartTimeRef (onopen st sid) = nextStartTimeRef st
   \<and> sourcesRef (onopen st sid) = sourcesRef st"
  by (simp add: toggleLiveReporting_def onopen_def Let_def)

text \<open>
  Claim C9, on the code. A first session schedules one chunk of two frames at device
  time 0 and is stopped; a second session is started and opens. The second session
  begins with the cursor the first one left, the double nearest \<open>2 / 24000\<close>, which is
  not 0, and with the first session's source still in the set; its first chunk,
  arriving at device time 0 of its own new output context, is started at that cursor
  and not at 0.
\<close>

theorem cursor_carries_over_to_next_session:
  "nextStartTimeRef (run init [Toggle True, Open 0,
       Message 0 (audio_message (js ''AAAAAA=='')), Toggle True, Toggle True, Open 1])
     = 6148914691236517 / 2 ^ 66
   \<and> sourcesRef (run init [Toggle True, Open 0,
       Message 0 (audio_message (js ''AAAAAA=='')), Toggle True, Toggle True, Open 1]) = {0}
   \<and> map startTime (started (run init [Toggle True, Open 0,
       Message 0 (audio_message (js ''AAAAAA=='')), Toggle True, Toggle True, Open 1,
       Message 0 (audio_message (js ''AAAAAA==''))])) = [0, 6148914691236517 / 2 ^ 66]"
  by code_simp

subsection \<open>C7: the fallback insight\<close>

text \<open>
  What the \<open>catch\<close> does give: when the remote call returns and the text handed to
  \<open>JSON.parse\<close> is unparseable, the result is the fallback value, and
  \<open>generateStrategicInsight\<close>, called with reports, stores it as the insight.
\<close>

lemma unparseable_response_gives_fallback:
  assumes "generateContent (prompt rs) = Inr response_text"
    and "JSON_parse (case response_text of None \<Rightarrow> js ''{}''
                     | Some t \<Rightarrow> if t = [] then js ''{}'' else t) = None"
  shows "analyzeEducationData JSON_parse generateContent rs = Inr fallback
         \<and> (reports st = rs \<and> rs \<noteq> [] \<longrightarrow>
              insight (generateStrategicInsight JSON_parse generateContent st) = Some fallback)"
  using assms by (simp add: analyzeEducationData_def generateStrategicInsight_def)

text \<open>
  Claim C7, on the code. For one report, a response with no text, a response with the
  empty text and the response text \<open>{}\<close> are all handed to \<open>JSON.parse\<close> as \<open>{}\<close>, which
  parses: \<open>analyzeEducationData\<close> returns the empty object, which has none of the three
  fields of an insight, and \<open>generateStrategicInsight\<close> stores it as the insight. The
  fallback value is not returned.
\<close>

theorem missing_response_text_gives_empty_object:
  "analyzeEducationData JSON_parse_braces (respond None)
     [\<lparr>report_id = js ''r1'', schoolName = js ''GPS Chak 12'', district = js ''Multan'',
       province = js ''Pakistan'', issues = js ''No boundary wall'', timestamp = 0\<rparr>]
   = Inr (JObject [])
   \<and> analyzeEducationData JSON_parse_braces (respond (Some []))
     [\<lparr>report_id = js ''r1'', schoolName = js ''GPS Chak 12'', district = js ''Multan'',
       province = js ''Pakistan'', issues = js ''No boundary wall'', timestamp = 0\<rparr>]
   = Inr (JObject [])
   \<and> analyzeEducationData JSON_parse_braces (respond (Some (js ''{}'')))
     [\<lparr>report_id = js ''r1'', schoolName = js ''GPS Chak 12'', district = js ''Multan'',
       province = js ''Pakistan'', issues = js ''No boundary wall'', timestamp = 0\<rparr>]
   = Inr (JObject [])
   \<and> insight (generateStrategicInsight JSON_parse_braces (respond None)
        (init\<lparr>reports :=
           [\<lparr>report_id = js ''r1'', schoolName = js ''GPS Chak 12'', district = js ''Multan'',
             province = js ''Pakistan'', issues = js ''No boundary wall'', timestamp = 0\<rparr>]\<rparr>))
   = Some (JObject [])
   \<and> JObject [] \<noteq> fallback"
  by code_simp

end
